theory Spec2Isabelle
  imports Complex_Main
begin

section \<open>Python numbers: binary64 floats\<close>

text \<open>
  The dashboard script \<^verbatim>\<open>app.py\<close> reads integers from its widgets and combines them
  with Python's \<^verbatim>\<open>/\<close>, \<^verbatim>\<open>*\<close> and \<^verbatim>\<open>-\<close>. As soon as a true division has happened the
  values are Python floats, that is IEEE-754 binary64 numbers, and every further operation
  rounds its exact result to the nearest binary64 number, ties to even.

  \<open>fl\<close> is that rounding on the reals. \<open>expo\<close> finds the binary exponent by repeated
  halving or doubling, \<open>ulp_exp\<close> is the exponent of the spacing of the floats around
  \<open>x\<close>: 52 below the exponent of \<open>x\<close> in the normal range, and \<open>-1074\<close> for the
  subnormal numbers, which makes tiny quotients underflow gradually and finally to zero.
  \<open>rne\<close> rounds the scaled number to the nearest integer, ties to even.
\<close>

definition pow2 :: "int \<Rightarrow> real" where
  "pow2 e = (if 0 \<le> e then 2 ^ nat e else 1 / 2 ^ nat (- e))"

function expo :: "real \<Rightarrow> int" where
  "expo x = (if x \<le> 0 then 0
             else if 2 \<le> x then expo (x / 2) + 1
             else if x < 1 then expo (x * 2) - 1
             else 0)"
  by pat_completeness auto
termination
proof (relation "measure (\<lambda>x. nat \<bar>\<lfloor>log 2 x\<rfloor>\<bar>)")
  show "wf (measure (\<lambda>x. nat \<bar>\<lfloor>log 2 x\<rfloor>\<bar>))" by simp
next
  fix x :: real
  assume "\<not> x \<le> 0" and h: "2 \<le> x"
  have "log 2 (x / 2) = log 2 x - 1" using h by (simp add: log_divide)
  moreover have "1 \<le> log 2 x" using h by (simp add: le_log_iff)
  then have "1 \<le> \<lfloor>log 2 x\<rfloor>" by linarith
  ultimately show "(x / 2, x) \<in> measure (\<lambda>x. nat \<bar>\<lfloor>log 2 x\<rfloor>\<bar>)"
    by simp
next
  fix x :: real
  assume p: "\<not> x \<le> 0" and "\<not> 2 \<le> x" and h: "x < 1"
  have "log 2 (x * 2) = log 2 x + 1" using p by (simp add: log_mult)
  moreover have "log 2 x < 0" using p h by simp
  then have "\<lfloor>log 2 x\<rfloor> \<le> - 1" by linarith
  ultimately show "(x * 2, x) \<in> measure (\<lambda>x. nat \<bar>\<lfloor>log 2 x\<rfloor>\<bar>)"
    by simp
qed

declare expo.simps [simp del]

definition rne :: "real \<Rightarrow> int" where
  "rne x = (let f = \<lfloor>x\<rfloor>; r = x - of_int f in
            if r < 1 / 2 then f
            else if 1 / 2 < r then f + 1
            else if even f then f else f + 1)"

definition ulp_exp :: "real \<Rightarrow> int" where
  "ulp_exp x = max (expo \<bar>x\<bar> - 52) (- 1074)"

definition fl :: "real \<Rightarrow> real" where
  "fl x = (if x = 0 then 0
           else let u = pow2 (ulp_exp x) in of_int (rne (x / u)) * u)"

text \<open>
  A float is a finite number, one of the two infinities, or a NaN. The two zeros of
  binary64 are one value here: the script never divides by a float that can be zero and
  never prints a sign of zero that a comparison could see. \<open>round64\<close> is the rounding of
  a float operation: a result that rounds to \<open>2\<^sup>1\<^sup>0\<^sup>2\<^sup>4\<close> or beyond overflows to an
  infinity.
\<close>

datatype pyfloat = Fin real | PInf | NInf | NaN

definition round64 :: "real \<Rightarrow> pyfloat" where
  "round64 x = (let r = fl x in
                if 2 ^ 1024 \<le> r then PInf
                else if r \<le> - (2 ^ 1024) then NInf
                else Fin r)"


section \<open>Python operations on ints and floats\<close>

text \<open>
  Python raises \<^verbatim>\<open>ZeroDivisionError\<close> when the divisor of \<^verbatim>\<open>/\<close> is zero, and
  \<^verbatim>\<open>OverflowError\<close> when an int operand or the quotient of two ints is too large for a
  float. The script has no \<^verbatim>\<open>try\<close>, so an exception ends the run: it is the \<open>Inl\<close>
  result of the model.

  \<open>int_truediv\<close> is \<^verbatim>\<open>a / b\<close> on two Python ints: the exact quotient, rounded once.
  \<open>float_of_int\<close> is the conversion Python applies to an int operand of a float operation.
\<close>

datatype error = ZeroDivisionError | OverflowError

definition raise_overflow :: "pyfloat \<Rightarrow> error + pyfloat" where
  "raise_overflow x = (case x of Fin r \<Rightarrow> Inr (Fin r) | _ \<Rightarrow> Inl OverflowError)"

definition int_truediv :: "int \<Rightarrow> int \<Rightarrow> error + pyfloat" where
  "int_truediv a b =
     (if b = 0 then Inl ZeroDivisionError
      else raise_overflow (round64 (of_int a / of_int b)))"

definition float_of_int :: "int \<Rightarrow> error + pyfloat" where
  "float_of_int n = raise_overflow (round64 (of_int n))"

text \<open>
  \<open>fmul\<close>, \<open>fsub\<close> and \<open>fdiv\<close> are \<^verbatim>\<open>*\<close>, \<^verbatim>\<open>-\<close> and \<^verbatim>\<open>/\<close> on two floats. Multiplication
  and subtraction never raise: an overflow gives an infinity, and an infinity or a NaN
  goes through as IEEE-754 says. Division raises \<^verbatim>\<open>ZeroDivisionError\<close> for a zero
  divisor, whatever the dividend.
\<close>

definition sign_of :: "pyfloat \<Rightarrow> real" where
  "sign_of x = (case x of Fin a \<Rightarrow> sgn a | PInf \<Rightarrow> 1 | NInf \<Rightarrow> - 1 | NaN \<Rightarrow> 0)"

definition inf_of_sign :: "real \<Rightarrow> pyfloat" where
  "inf_of_sign s = (if 0 < s then PInf else if s < 0 then NInf else NaN)"

fun fmul :: "pyfloat \<Rightarrow> pyfloat \<Rightarrow> pyfloat" where
  "fmul (Fin a) (Fin b) = round64 (a * b)"
| "fmul x y = inf_of_sign (sign_of x * sign_of y)"

fun fsub :: "pyfloat \<Rightarrow> pyfloat \<Rightarrow> pyfloat" where
  "fsub (Fin a) (Fin b) = round64 (a - b)"
| "fsub NaN y = NaN"
| "fsub x NaN = NaN"
| "fsub PInf PInf = NaN"
| "fsub NInf NInf = NaN"
| "fsub PInf y = PInf"
| "fsub NInf y = NInf"
| "fsub (Fin a) PInf = NInf"
| "fsub (Fin a) NInf = PInf"

fun fdiv_ieee :: "pyfloat \<Rightarrow> pyfloat \<Rightarrow> pyfloat" where
  "fdiv_ieee (Fin a) (Fin b) = round64 (a / b)"
| "fdiv_ieee NaN y = NaN"
| "fdiv_ieee x NaN = NaN"
| "fdiv_ieee (Fin a) y = Fin 0"
| "fdiv_ieee x (Fin b) = inf_of_sign (sign_of x * sgn b)"
| "fdiv_ieee x y = NaN"

definition fdiv :: "pyfloat \<Rightarrow> pyfloat \<Rightarrow> error + pyfloat" where
  "fdiv x y = (if y = Fin 0 then Inl ZeroDivisionError else Inr (fdiv_ieee x y))"

text \<open>
  \<open>pf_less\<close> and \<open>pf_le\<close> are \<^verbatim>\<open><\<close> and \<^verbatim>\<open><=\<close> on floats; every comparison with a NaN
  is false. An int literal compared with a float is compared exactly, so it appears as
  the finite float of the same value. Python's \<^verbatim>\<open>min(a, b)\<close> keeps \<open>a\<close> unless
  \<open>b < a\<close>, and \<^verbatim>\<open>max(a, b)\<close> keeps \<open>a\<close> unless \<open>b > a\<close>.
\<close>

fun pf_less :: "pyfloat \<Rightarrow> pyfloat \<Rightarrow> bool" where
  "pf_less (Fin a) (Fin b) = (a < b)"
| "pf_less NaN y = False"
| "pf_less x NaN = False"
| "pf_less x NInf = False"
| "pf_less PInf y = False"
| "pf_less x y = True"

fun pf_le :: "pyfloat \<Rightarrow> pyfloat \<Rightarrow> bool" where
  "pf_le (Fin a) (Fin b) = (a \<le> b)"
| "pf_le NaN y = False"
| "pf_le x NaN = False"
| "pf_le NInf y = True"
| "pf_le x PInf = True"
| "pf_le x y = False"

definition py_min :: "pyfloat \<Rightarrow> pyfloat \<Rightarrow> pyfloat" where
  "py_min a b = (if pf_less b a then b else a)"

definition py_max :: "pyfloat \<Rightarrow> pyfloat \<Rightarrow> pyfloat" where
  "py_max a b = (if pf_less a b then b else a)"


section \<open>Tab 1: the operations dashboard\<close>


text \<open>
  The core calculations, one definition for each of the lines 25 to 28. The arguments
  \<open>pph\<close>, \<open>nd\<close>, \<open>ct\<close> and \<open>nb\<close> are the slider values \<^verbatim>\<open>num_patients_per_hour\<close>,
  \<^verbatim>\<open>num_doctors\<close>, \<^verbatim>\<open>consult_time\<close> and \<^verbatim>\<open>num_beds\<close>; \<open>ppd\<close> is the float
  \<^verbatim>\<open>patients_per_doctor\<close> of line 25. In lines 26 and 27 the int \<^verbatim>\<open>consult_time\<close> is
  converted before it is multiplied, and the literals \<^verbatim>\<open>60\<close> and \<^verbatim>\<open>100\<close> are exact floats.
\<close>

definition patients_per_doctor :: "int \<Rightarrow> int \<Rightarrow> error + pyfloat" where
  "patients_per_doctor pph nd = int_truediv pph nd"

definition doctor_utilization :: "pyfloat \<Rightarrow> int \<Rightarrow> error + pyfloat" where
  "doctor_utilization ppd ct =
     (case float_of_int ct of
        Inl e \<Rightarrow> Inl e
      | Inr c \<Rightarrow>
          (case fdiv (fmul ppd c) (Fin 60) of
             Inl e \<Rightarrow> Inl e
           | Inr q \<Rightarrow> Inr (py_min (Fin 100) (fmul q (Fin 100)))))"

definition waiting_time :: "pyfloat \<Rightarrow> int \<Rightarrow> error + pyfloat" where
  "waiting_time ppd ct =
     (case float_of_int ct of
        Inl e \<Rightarrow> Inl e
      | Inr c \<Rightarrow> Inr (py_max (Fin 0) (fsub (fmul ppd c) (Fin 60))))"

definition bed_utilization :: "int \<Rightarrow> int \<Rightarrow> error + pyfloat" where
  "bed_utilization pph nb =
     (case int_truediv pph nb of
        Inl e \<Rightarrow> Inl e
      | Inr q \<Rightarrow> Inr (py_min (Fin 100) (fmul q (Fin 100))))"



text \<open>
  The recommendations of lines 32 to 40. Each constructor stands for one of the four
  message strings of the script.
\<close>

datatype doctor_advice = DoctorsOverutilized | DoctorUtilizationOptimal

datatype bed_advice = HighBedOccupancy | BedAvailabilityHealthy

definition doctor_msg :: "pyfloat \<Rightarrow> doctor_advice" where
  "doctor_msg du =
     (if pf_less (Fin 90) du then DoctorsOverutilized else DoctorUtilizationOptimal)"

definition bed_msg :: "pyfloat \<Rightarrow> bed_advice" where
  "bed_msg bu = (if pf_less (Fin 85) bu then HighBedOccupancy else BedAvailabilityHealthy)"


section \<open>Tab 2: return on investment\<close>

text \<open>
  Line 90. The three inputs are Python ints (the number inputs are created with int
  bounds), so the numerator is exact and the quotient is rounded once before it is
  multiplied by \<^verbatim>\<open>100\<close>.
\<close>

definition roi :: "int \<Rightarrow> int \<Rightarrow> int \<Rightarrow> error + pyfloat" where
  "roi investment annual_savings years =
     (case int_truediv (annual_savings * years - investment) investment of
        Inl e \<Rightarrow> Inl e
      | Inr q \<Rightarrow> Inr (fmul q (Fin 100)))"

text \<open>Lines 93 to 98: which of the three banners is shown.\<close>

datatype roi_class = ExcellentROI | ModerateROI | NegativeROI

definition roi_classify :: "pyfloat \<Rightarrow> roi_class" where
  "roi_classify r =
     (if pf_less (Fin 50) r then ExcellentROI
      else if pf_less (Fin 0) r then ModerateROI
      else NegativeROI)"


section \<open>Tab 2: the Six Sigma estimator\<close>

text \<open>
  Lines 104 to 106. \<^verbatim>\<open>np.log10\<close> belongs to NumPy, not to the script: its value on a
  positive finite float is the parameter \<open>np_log10\<close>, and \<open>log10_float\<close> adds what NumPy
  returns elsewhere (minus infinity at zero, NaN below zero, infinity at infinity).
  The literal \<^verbatim>\<open>3.4\<close> is the float nearest to 3.4. \<open>sigma_level\<close> returns the value of the
  variable together with the list of arguments \<^verbatim>\<open>np.log10\<close> was called with, so that
  "no logarithm is evaluated" is a statement about the model. In the zero branch Python
  computes \<^verbatim>\<open>6 - 0\<close> on ints; the int 6 appears as the float of the same value, which
  compares and prints the same.
\<close>

definition opportunities :: int where
  "opportunities = 1000 * 10"

definition dpmo :: "int \<Rightarrow> error + pyfloat" where
  "dpmo defects =
     (case int_truediv defects opportunities of
        Inl e \<Rightarrow> Inl e
      | Inr q \<Rightarrow> Inr (fmul q (Fin 1000000)))"

definition log10_float :: "(real \<Rightarrow> real) \<Rightarrow> pyfloat \<Rightarrow> pyfloat" where
  "log10_float np_log10 x =
     (case x of
        Fin a \<Rightarrow> if 0 < a then Fin (np_log10 a) else if a = 0 then NInf else NaN
      | PInf \<Rightarrow> PInf
      | NInf \<Rightarrow> NaN
      | NaN \<Rightarrow> NaN)"

definition sigma_level ::
  "(real \<Rightarrow> real) \<Rightarrow> pyfloat \<Rightarrow> error + pyfloat \<times> pyfloat list" where
  "sigma_level np_log10 d =
     (if pf_less (Fin 0) d
      then (case fdiv d (Fin (fl (34 / 10))) of
              Inl e \<Rightarrow> Inl e
            | Inr q \<Rightarrow> Inr (fsub (Fin 6) (log10_float np_log10 q), [q]))
      else Inr (Fin (6 - 0), []))"

text \<open>Lines 111 to 118: which of the four banners is shown.\<close>

datatype sigma_band = WorldClass | GoodProcess | ModerateQuality | PoorQuality

definition sigma_classify :: "pyfloat \<Rightarrow> sigma_band" where
  "sigma_classify s =
     (if pf_le (Fin 5) s then WorldClass
      else if pf_le (Fin 4) s then GoodProcess
      else if pf_le (Fin 3) s then ModerateQuality
      else PoorQuality)"


section \<open>Properties of the rounding function\<close>

text \<open>
  \<open>expo\<close> brackets a positive number between two consecutive powers of two, \<open>rne\<close> is
  monotone, odd and the identity on integers. From these: \<open>fl\<close> is monotone, odd, keeps
  the sign, leaves powers of two and every integer below \<open>2\<^sup>5\<^sup>3\<close> in absolute value
  unchanged, and moves a number by at most half the spacing of the floats around it.
\<close>

lemma pow2_powi: "pow2 e = 2 powi e"
  by (simp add: pow2_def power_int_def power_one_over)

lemma pow2_pos: "0 < pow2 e"
  by (simp add: pow2_def)

lemma pow2_Suc: "pow2 (e + 1) = 2 * pow2 e"
  by (simp add: pow2_powi power_int_add)

lemma pow2_add: "pow2 (a + b) = pow2 a * pow2 b"
  by (simp add: pow2_powi power_int_add)

lemma pow2_mono: "a \<le> b \<Longrightarrow> pow2 a \<le> pow2 b"
  by (simp add: pow2_powi power_int_increasing)

lemma expo_bounds: "0 < x \<Longrightarrow> pow2 (expo x) \<le> x \<and> x < pow2 (expo x + 1)"
proof (induction x rule: expo.induct)
  case (1 x)
  show ?case
  proof (cases "2 \<le> x")
    case True
    then have e: "expo x = expo (x / 2) + 1" using 1(3) by (subst expo.simps) simp
    have "pow2 (expo (x / 2)) \<le> x / 2 \<and> x / 2 < pow2 (expo (x / 2) + 1)"
      using 1(1) True 1(3) by simp
    moreover have "pow2 (expo (x / 2) + 1 + 1) = 2 * pow2 (expo (x / 2) + 1)"
      by (rule pow2_Suc)
    ultimately show ?thesis unfolding e by (simp add: pow2_Suc)
  next
    case False
    show ?thesis
    proof (cases "x < 1")
      case True
      then have e: "expo x = expo (x * 2) - 1" using 1(3) False by (subst expo.simps) simp
      have "pow2 (expo (x * 2)) \<le> x * 2 \<and> x * 2 < pow2 (expo (x * 2) + 1)"
        using 1(2) True False 1(3) by simp
      moreover have "pow2 (expo (x * 2)) = 2 * pow2 (expo (x * 2) - 1)"
        using pow2_Suc [of "expo (x * 2) - 1"] by simp
      ultimately show ?thesis unfolding e by (simp add: pow2_Suc)
    next
      case F2: False
      then have e: "expo x = 0" using 1(3) False by (subst expo.simps) simp
      show ?thesis unfolding e using False F2 by (simp add: pow2_def)
    qed
  qed
qed

lemma expo_mono:
  assumes "0 < x" "x \<le> y"
  shows "expo x \<le> expo y"
proof (rule ccontr)
  assume "\<not> expo x \<le> expo y"
  then have "expo y + 1 \<le> expo x" by simp
  then have "pow2 (expo y + 1) \<le> pow2 (expo x)" by (rule pow2_mono)
  moreover have "y < pow2 (expo y + 1)" using expo_bounds [of y] assms by simp
  moreover have "pow2 (expo x) \<le> x" using expo_bounds [of x] assms by simp
  ultimately show False using assms by linarith
qed

lemma rne_of_int: "rne (of_int n) = n"
  by (simp add: rne_def)

lemma rne_mono: "x \<le> y \<Longrightarrow> rne x \<le> rne y"
proof -
  assume h: "x \<le> y"
  then have "\<lfloor>x\<rfloor> \<le> \<lfloor>y\<rfloor>" by (rule floor_mono)
  then consider "\<lfloor>x\<rfloor> = \<lfloor>y\<rfloor>" | "\<lfloor>x\<rfloor> + 1 \<le> \<lfloor>y\<rfloor>" by linarith
  then show ?thesis
  proof cases
    case 1
    then show ?thesis using h by (auto simp: rne_def Let_def)
  next
    case 2
    have "rne x \<le> \<lfloor>x\<rfloor> + 1" by (simp add: rne_def Let_def)
    moreover have "\<lfloor>y\<rfloor> \<le> rne y" by (simp add: rne_def Let_def)
    ultimately show ?thesis using 2 by linarith
  qed
qed

lemma rne_uminus: "rne (- x) = - rne x"
proof (cases "x = of_int \<lfloor>x\<rfloor>")
  case True
  then obtain n where "x = of_int n" ..
  then have "- x = of_int (- n)" by simp
  then show ?thesis using \<open>x = of_int n\<close> rne_of_int by metis
next
  case False
  then have lt: "of_int \<lfloor>x\<rfloor> < x" by linarith
  have "\<lfloor>- x\<rfloor> = - \<lfloor>x\<rfloor> - 1"
  proof (rule floor_unique)
    show "of_int (- \<lfloor>x\<rfloor> - 1) \<le> - x" by simp linarith
    show "- x < of_int (- \<lfloor>x\<rfloor> - 1) + 1" using lt by simp
  qed
  then show ?thesis by (auto simp: rne_def Let_def)
qed




text \<open>Rounding on the grid of step \<open>pow2 k\<close>.\<close>

lemma grid_mono:
  assumes "x \<le> y"
  shows "of_int (rne (x / pow2 k)) * pow2 k \<le> of_int (rne (y / pow2 k)) * pow2 k"
proof -
  have "x / pow2 k \<le> y / pow2 k" using assms pow2_pos [of k] by (simp add: divide_right_mono)
  then have "rne (x / pow2 k) \<le> rne (y / pow2 k)" by (rule rne_mono)
  then show ?thesis using pow2_pos [of k] by simp
qed

lemma grid_fix:
  assumes "z = of_int m * pow2 k"
  shows "of_int (rne (z / pow2 k)) * pow2 k = z"
  unfolding assms using pow2_pos [of k] by (simp add: rne_of_int)

lemma pow2_on_grid:
  assumes "k \<le> e"
  shows "pow2 e = of_int (2 ^ nat (e - k)) * pow2 k"
proof -
  have "pow2 e = pow2 (e - k) * pow2 k" using pow2_add [of "e - k" k] by simp
  moreover have "pow2 (e - k) = 2 ^ nat (e - k)" using assms by (simp add: pow2_def)
  ultimately show ?thesis by simp
qed

lemma fl_0: "fl 0 = 0"
  by (simp add: fl_def)

lemma fl_uminus: "fl (- x) = - fl x"
  by (simp add: fl_def ulp_exp_def Let_def rne_uminus)

lemma fl_grid: "x \<noteq> 0 \<Longrightarrow> fl x = of_int (rne (x / pow2 (ulp_exp x))) * pow2 (ulp_exp x)"
  by (simp add: fl_def Let_def)

lemma ulp_exp_mono:
  assumes "0 < x" "x \<le> y"
  shows "ulp_exp x \<le> ulp_exp y"
  using expo_mono [OF assms] assms by (simp add: ulp_exp_def)

lemma fl_mono_pos:
  assumes "0 < x" "x \<le> y"
  shows "fl x \<le> fl y"
proof -
  have y: "0 < y" using assms by simp
  have "ulp_exp x \<le> ulp_exp y" using assms by (rule ulp_exp_mono)
  then consider "ulp_exp x = ulp_exp y" | "ulp_exp x < ulp_exp y" by linarith
  then show ?thesis
  proof cases
    case 1
    show ?thesis using grid_mono [OF assms(2), of "ulp_exp y"] assms y 1
      by (simp add: fl_grid)
  next
    case 2
    define b where "b = pow2 (expo y)"
    have ux: "ulp_exp x = max (expo x - 52) (- 1074)" using assms by (simp add: ulp_exp_def)
    have uy: "ulp_exp y = max (expo y - 52) (- 1074)" using y by (simp add: ulp_exp_def)
    have ky: "ulp_exp y = expo y - 52" using 2 ux uy by linarith
    have ex: "expo x + 1 \<le> expo y" using 2 ux ky by linarith
    have "x < pow2 (expo x + 1)" using expo_bounds [OF assms(1)] by simp
    also have "\<dots> \<le> b" unfolding b_def using ex by (rule pow2_mono)
    finally have xb: "x \<le> b" by simp
    have by': "b \<le> y" unfolding b_def using expo_bounds [OF y] by simp
    have gx: "b = of_int (2 ^ nat (expo y - ulp_exp x)) * pow2 (ulp_exp x)"
      unfolding b_def using 2 ky by (intro pow2_on_grid) linarith
    have gy: "b = of_int (2 ^ nat (expo y - ulp_exp y)) * pow2 (ulp_exp y)"
      unfolding b_def using ky by (intro pow2_on_grid) linarith
    have "fl x \<le> of_int (rne (b / pow2 (ulp_exp x))) * pow2 (ulp_exp x)"
      using grid_mono [OF xb, of "ulp_exp x"] assms by (simp add: fl_grid)
    also have "\<dots> = b" using gx by (rule grid_fix)
    finally have 1: "fl x \<le> b" .
    have "b = of_int (rne (b / pow2 (ulp_exp y))) * pow2 (ulp_exp y)"
      using grid_fix [OF gy] by simp
    also have "\<dots> \<le> fl y" using grid_mono [OF by', of "ulp_exp y"] y by (simp add: fl_grid)
    finally show ?thesis using 1 by linarith
  qed
qed

lemma fl_pos_nonneg: "0 < x \<Longrightarrow> 0 \<le> fl x"
proof -
  assume x: "0 < x"
  have "0 \<le> x / pow2 (ulp_exp x)" using x pow2_pos [of "ulp_exp x"] by simp
  then have "rne 0 \<le> rne (x / pow2 (ulp_exp x))" by (rule rne_mono)
  then have "0 \<le> rne (x / pow2 (ulp_exp x))" using rne_of_int [of 0] by simp
  then show ?thesis using x pow2_pos [of "ulp_exp x"] by (simp add: fl_grid)
qed

lemma fl_mono:
  assumes "x \<le> y"
  shows "fl x \<le> fl y"
proof -
  consider "0 < x" | "y < 0" | "x \<le> 0" "0 \<le> y" by linarith
  then show ?thesis
  proof cases
    case 1
    then show ?thesis using assms by (rule fl_mono_pos)
  next
    case 2
    then have "fl (- y) \<le> fl (- x)" using assms by (intro fl_mono_pos) simp_all
    then show ?thesis by (simp add: fl_uminus)
  next
    case 3
    have "fl x \<le> 0"
    proof (cases "x = 0")
      case True
      then show ?thesis by (simp add: fl_0)
    next
      case False
      then have "0 \<le> fl (- x)" using 3 by (intro fl_pos_nonneg) simp
      then show ?thesis by (simp add: fl_uminus)
    qed
    moreover have "0 \<le> fl y"
    proof (cases "y = 0")
      case True
      then show ?thesis by (simp add: fl_0)
    next
      case False
      then show ?thesis using 3 by (intro fl_pos_nonneg) simp
    qed
    ultimately show ?thesis by linarith
  qed
qed

lemma fl_nonneg: "0 \<le> x \<Longrightarrow> 0 \<le> fl x"
  using fl_mono [of 0 x] by (simp add: fl_0)

lemma fl_nonpos: "x \<le> 0 \<Longrightarrow> fl x \<le> 0"
  using fl_mono [of x 0] by (simp add: fl_0)

text \<open>Numbers on their own grid are left unchanged: powers of two and small integers.\<close>

lemma fl_fix:
  assumes "x \<noteq> 0" "x = of_int m * pow2 (ulp_exp x)"
  shows "fl x = x"
  using grid_fix [OF assms(2)] assms(1) by (simp add: fl_grid)


lemma fl_of_int_pos:
  assumes "0 < n" "n < 2 ^ 53"
  shows "fl (of_int n) = of_int n"
proof -
  let ?x = "of_int n :: real"
  have x: "0 < ?x" using assms by simp
  have p: "pow2 53 = 2 ^ 53" "pow2 0 = 1" by (simp_all add: pow2_def)
  have "pow2 (expo ?x) \<le> ?x" using expo_bounds [OF x] by simp
  also have "?x < of_int (2 ^ 53)" using assms(2) by (simp only: of_int_less_iff)
  finally have "\<not> pow2 53 \<le> pow2 (expo ?x)" unfolding p by simp
  then have "\<not> 53 \<le> expo ?x" using pow2_mono by blast
  then have le: "expo ?x \<le> 52" by simp
  have "(1::real) \<le> ?x" using assms(1) by simp
  then have "\<not> ?x < pow2 0" unfolding p by simp
  then have "\<not> expo ?x + 1 \<le> 0"
    using expo_bounds [OF x] pow2_mono [of "expo ?x + 1" 0] by linarith
  then have ge: "0 \<le> expo ?x" by simp
  have k: "ulp_exp ?x = expo ?x - 52" using x ge by (simp add: ulp_exp_def)
  have k0: "ulp_exp ?x \<le> 0" using k le by simp
  have "pow2 0 = of_int (2 ^ nat (0 - ulp_exp ?x)) * pow2 (ulp_exp ?x)"
    using k0 by (rule pow2_on_grid)
  then have g: "?x = of_int (n * 2 ^ nat (0 - ulp_exp ?x)) * pow2 (ulp_exp ?x)"
    unfolding p by simp
  show ?thesis
  proof (rule fl_fix)
    show "?x \<noteq> 0" using x by simp
    show "?x = of_int (n * 2 ^ nat (0 - ulp_exp ?x)) * pow2 (ulp_exp ?x)" by (rule g)
  qed
qed

lemma fl_of_int:
  assumes "\<bar>n\<bar> < 2 ^ 53"
  shows "fl (of_int n) = of_int n"
proof -
  consider "n = 0" | "0 < n" | "n < 0" by linarith
  then show ?thesis
  proof cases
    case 1
    then show ?thesis by (simp add: fl_0)
  next
    case 2
    then show ?thesis using assms by (intro fl_of_int_pos) simp_all
  next
    case 3
    then have "fl (of_int (- n)) = of_int (- n)" using assms by (intro fl_of_int_pos) simp_all
    then show ?thesis by (simp add: fl_uminus)
  qed
qed

lemma fl_abs_le:
  assumes "\<bar>x\<bar> \<le> of_int n" "n < 2 ^ 53"
  shows "\<bar>fl x\<bar> \<le> of_int n"
proof -
  have n0: "0 \<le> n" using assms(1) by linarith
  then have f: "fl (of_int n) = of_int n" using assms(2) by (intro fl_of_int) simp
  have "fl x \<le> fl (of_int n)" using assms(1) by (intro fl_mono) linarith
  moreover have "fl (- of_int n) \<le> fl x" using assms(1) by (intro fl_mono) linarith
  ultimately show ?thesis using f by (simp add: fl_uminus abs_le_iff)
qed

lemma round64_finite:
  assumes "\<bar>x\<bar> \<le> of_int n" "n < 2 ^ 53"
  shows "round64 x = Fin (fl x)"
proof -
  have "\<bar>fl x\<bar> \<le> of_int n" using assms by (rule fl_abs_le)
  moreover have "(of_int n :: real) < of_int (2 ^ 53)" using assms(2) by (simp only: of_int_less_iff)
  ultimately have "\<bar>fl x\<bar> < 2 ^ 53" by simp
  moreover have "(2::real) ^ 53 < 2 ^ 1024" by simp
  ultimately have "fl x < 2 ^ 1024" and "- (2 ^ 1024) < fl x" by linarith+
  then show ?thesis by (simp add: round64_def Let_def)
qed

text \<open>The rounding error: half a grid step, that is \<open>2\<^sup>-\<^sup>5\<^sup>3\<close> relative in the normal range.\<close>

lemma rne_err: "\<bar>of_int (rne z) - z\<bar> \<le> 1 / 2"
  by (simp add: rne_def Let_def abs_le_iff)

lemma fl_err:
  assumes "x \<noteq> 0"
  shows "\<bar>fl x - x\<bar> \<le> pow2 (ulp_exp x) / 2"
proof -
  define u where "u = pow2 (ulp_exp x)"
  have u: "0 < u" unfolding u_def by (rule pow2_pos)
  have "fl x - x = (of_int (rne (x / u)) - x / u) * u"
    using assms u by (simp add: fl_grid u_def field_simps)
  then have "\<bar>fl x - x\<bar> = \<bar>of_int (rne (x / u)) - x / u\<bar> * u"
    using u by (simp add: abs_mult)
  also have "\<dots> \<le> (1 / 2) * u" using rne_err [of "x / u"] u by (intro mult_right_mono) simp_all
  finally show ?thesis by (simp add: u_def)
qed

lemma fl_rel_err:
  assumes "pow2 (- 1022) \<le> \<bar>x\<bar>"
  shows "\<bar>fl x - x\<bar> \<le> \<bar>x\<bar> / 2 ^ 53"
proof -
  have x: "0 < \<bar>x\<bar>" using assms pow2_pos [of "- 1022"] by linarith
  then have x0: "x \<noteq> 0" by simp
  have b: "pow2 (expo \<bar>x\<bar>) \<le> \<bar>x\<bar>" "\<bar>x\<bar> < pow2 (expo \<bar>x\<bar> + 1)"
    using expo_bounds [OF x] by simp_all
  have "\<not> pow2 (expo \<bar>x\<bar> + 1) \<le> pow2 (- 1022)" using b(2) assms by linarith
  then have "\<not> expo \<bar>x\<bar> + 1 \<le> - 1022" using pow2_mono by blast
  then have k: "ulp_exp x = expo \<bar>x\<bar> - 52" by (simp add: ulp_exp_def)
  have "pow2 (expo \<bar>x\<bar>) = pow2 53 * pow2 (ulp_exp x) / 2"
    using pow2_add [of 53 "expo \<bar>x\<bar> - 53"] pow2_Suc [of "expo \<bar>x\<bar> - 53"]
    unfolding k by simp
  moreover have "pow2 53 = 2 ^ 53" by (simp add: pow2_def)
  ultimately have "pow2 (ulp_exp x) / 2 = pow2 (expo \<bar>x\<bar>) / 2 ^ 53" by simp
  also have "\<dots> \<le> \<bar>x\<bar> / 2 ^ 53" using b(1) by (simp add: divide_right_mono)
  finally show ?thesis using fl_err [OF x0] by linarith
qed

text \<open>The facts that evaluate \<open>fl\<close> at a concrete rational number.\<close>

lemmas fl_eval = fl_def ulp_exp_def expo.simps pow2_def rne_def Let_def

lemma fl_1: "fl 1 = 1"
  using fl_of_int [of 1] by simp

lemma fl_100: "fl 100 = 100"
  using fl_of_int [of 100] by simp

section \<open>The float operations on finite values inside the range\<close>

lemma int_truediv_finite:
  assumes "b \<noteq> 0" "\<bar>of_int a / of_int b\<bar> \<le> (of_int n :: real)" "n < 2 ^ 53"
  shows "int_truediv a b = Inr (Fin (fl (of_int a / of_int b)))"
  using assms(1) round64_finite [OF assms(2,3)]
  by (simp add: int_truediv_def raise_overflow_def)

lemma float_of_int_finite:
  assumes "\<bar>n\<bar> < 2 ^ 53"
  shows "float_of_int n = Inr (Fin (of_int n))"
proof -
  have "\<bar>of_int n :: real\<bar> \<le> of_int \<bar>n\<bar>" by simp
  then have "round64 (of_int n) = Fin (fl (of_int n))" using assms by (rule round64_finite)
  then show ?thesis using fl_of_int [OF assms] by (simp add: float_of_int_def raise_overflow_def)
qed

lemma fmul_finite:
  assumes "\<bar>a * b\<bar> \<le> of_int n" "n < 2 ^ 53"
  shows "fmul (Fin a) (Fin b) = Fin (fl (a * b))"
  using round64_finite [OF assms] by simp

lemma fsub_finite:
  assumes "\<bar>a - b\<bar> \<le> of_int n" "n < 2 ^ 53"
  shows "fsub (Fin a) (Fin b) = Fin (fl (a - b))"
  using round64_finite [OF assms] by simp

lemma fdiv_finite:
  assumes "b \<noteq> 0" "\<bar>a / b\<bar> \<le> of_int n" "n < 2 ^ 53"
  shows "fdiv (Fin a) (Fin b) = Inr (Fin (fl (a / b)))"
  using assms(1) round64_finite [OF assms(2,3)] by (simp add: fdiv_def)

lemma py_min_finite: "py_min (Fin a) (Fin b) = Fin (min a b)"
  by (simp add: py_min_def min_def)

lemma py_max_finite: "py_max (Fin a) (Fin b) = Fin (max a b)"
  by (simp add: py_max_def max_def)

section \<open>The operations metrics on the slider ranges\<close>

lemma ppd_finite:
  assumes "1 \<le> nd" "0 \<le> pph" "pph \<le> 100"
  shows "patients_per_doctor pph nd = Inr (Fin (fl (of_int pph / of_int nd)))"
    and "0 \<le> fl (of_int pph / of_int nd)"
    and "fl (of_int pph / of_int nd) \<le> 100"
proof -
  have d: "(1::real) \<le> of_int nd" using assms(1) by simp
  have p: "(0::real) \<le> of_int pph" "(of_int pph :: real) \<le> 100" using assms(2,3) by simp_all
  have "of_int pph / of_int nd \<le> (of_int pph :: real) / 1"
    using d p by (intro divide_left_mono) simp_all
  then have u: "of_int pph / of_int nd \<le> (100 :: real)" using p by simp
  have l: "(0::real) \<le> of_int pph / of_int nd" using d p by simp
  have a: "\<bar>of_int pph / of_int nd\<bar> \<le> (of_int 100 :: real)" using l u by simp
  show "patients_per_doctor pph nd = Inr (Fin (fl (of_int pph / of_int nd)))"
    unfolding patients_per_doctor_def
    using assms(1) a by (intro int_truediv_finite [where n = 100]) simp_all
  show "0 \<le> fl (of_int pph / of_int nd)" using l by (rule fl_nonneg)
  show "fl (of_int pph / of_int nd) \<le> 100" using fl_mono [OF u] by (simp add: fl_100)
qed

lemma product_bound:
  fixes ppd :: real
  assumes "0 \<le> ppd" "ppd \<le> 100" "0 \<le> ct" "ct \<le> 30"
  shows "0 \<le> ppd * of_int ct" "ppd * of_int ct \<le> 3000"
proof -
  have c: "(0::real) \<le> of_int ct" "(of_int ct :: real) \<le> 30" using assms(3,4) by simp_all
  show "0 \<le> ppd * of_int ct" using assms(1) c by simp
  have "ppd * of_int ct \<le> 100 * 30" using assms(1,2) c by (intro mult_mono) simp_all
  then show "ppd * of_int ct \<le> 3000" by simp
qed

lemma t_bound:
  fixes ppd :: real
  assumes "0 \<le> ppd" "ppd \<le> 100" "0 \<le> ct" "ct \<le> 30"
  shows "0 \<le> fl (ppd * of_int ct)" "fl (ppd * of_int ct) \<le> 3000"
proof -
  show "0 \<le> fl (ppd * of_int ct)" using product_bound(1) [OF assms] by (rule fl_nonneg)
  have "fl (ppd * of_int ct) \<le> fl (of_int 3000)"
    using product_bound(2) [OF assms] by (intro fl_mono) simp
  then show "fl (ppd * of_int ct) \<le> 3000" using fl_of_int [of 3000] by simp
qed

lemma doctor_utilization_finite:
  assumes "0 \<le> ppd" "ppd \<le> 100" "0 \<le> ct" "ct \<le> 30"
  shows "doctor_utilization (Fin ppd) ct =
           Inr (Fin (min 100 (fl (fl (fl (ppd * of_int ct) / 60) * 100))))"
proof -
  define t where "t = fl (ppd * of_int ct)"
  define q where "q = fl (t / 60)"
  have c: "float_of_int ct = Inr (Fin (of_int ct))"
    using assms(3,4) by (intro float_of_int_finite) simp
  have "\<bar>ppd * of_int ct\<bar> \<le> of_int 3000" using product_bound [OF assms] by simp
  then have m: "fmul (Fin ppd) (Fin (of_int ct)) = Fin t"
    unfolding t_def by (rule fmul_finite) simp
  have tb: "0 \<le> t" "t \<le> 3000" unfolding t_def using t_bound [OF assms] by simp_all
  then have "\<bar>t / 60\<bar> \<le> of_int 50" by simp
  then have d: "fdiv (Fin t) (Fin 60) = Inr (Fin q)"
    unfolding q_def by (intro fdiv_finite [where n = 50]) simp_all
  have "fl 0 \<le> q" "q \<le> fl (of_int 50)" unfolding q_def using tb by (intro fl_mono; simp)+
  then have qb: "0 \<le> q" "q \<le> 50" using fl_of_int [of 50] by (simp_all add: fl_0)
  then have "\<bar>q * 100\<bar> \<le> of_int 5000" by simp
  then have m2: "fmul (Fin q) (Fin 100) = Fin (fl (q * 100))" by (rule fmul_finite) simp
  show ?thesis
    unfolding doctor_utilization_def c sum.case m d m2 py_min_finite
    by (simp add: q_def t_def)
qed

lemma waiting_time_finite:
  assumes "0 \<le> ppd" "ppd \<le> 100" "0 \<le> ct" "ct \<le> 30"
  shows "waiting_time (Fin ppd) ct = Inr (Fin (max 0 (fl (fl (ppd * of_int ct) - 60))))"
proof -
  define t where "t = fl (ppd * of_int ct)"
  have c: "float_of_int ct = Inr (Fin (of_int ct))"
    using assms(3,4) by (intro float_of_int_finite) simp
  have "\<bar>ppd * of_int ct\<bar> \<le> of_int 3000" using product_bound [OF assms] by simp
  then have m: "fmul (Fin ppd) (Fin (of_int ct)) = Fin t"
    unfolding t_def by (rule fmul_finite) simp
  have tb: "0 \<le> t" "t \<le> 3000" unfolding t_def using t_bound [OF assms] by simp_all
  then have "\<bar>t - 60\<bar> \<le> of_int 3000" by simp
  then have s: "fsub (Fin t) (Fin 60) = Fin (fl (t - 60))" by (rule fsub_finite) simp
  show ?thesis
    unfolding waiting_time_def c sum.case m s py_max_finite by (simp add: t_def)
qed

lemma bed_utilization_finite:
  assumes "1 \<le> nb" "0 \<le> pph" "pph \<le> 100"
  shows "bed_utilization pph nb =
           Inr (Fin (min 100 (fl (fl (of_int pph / of_int nb) * 100))))"
proof -
  define q where "q = fl (of_int pph / of_int nb :: real)"
  have i: "int_truediv pph nb = Inr (Fin q)"
    using ppd_finite(1) [OF assms] by (simp add: patients_per_doctor_def q_def)
  have qb: "0 \<le> q" "q \<le> 100" unfolding q_def using ppd_finite(2,3) [OF assms] by simp_all
  then have "\<bar>q * 100\<bar> \<le> of_int 10000" by simp
  then have m: "fmul (Fin q) (Fin 100) = Fin (fl (q * 100))" by (rule fmul_finite) simp
  show ?thesis
    unfolding bed_utilization_def i sum.case m py_min_finite by (simp add: q_def)
qed

text \<open>
  A positive waiting time forces the utilisation to its cap. If the rounded difference
  \<open>t - 60\<close> is positive then \<open>t\<close> exceeds 60, so \<open>t / 60\<close> is at least 1 and stays so
  after rounding, and its hundredfold is at least 100 and stays so after rounding.
\<close>

lemma waiting_pos_imp_full:
  assumes "0 < max 0 (fl (t - 60))"
  shows "min 100 (fl (fl (t / 60) * 100)) = 100"
proof -
  have "0 < fl (t - 60)" using assms by (simp add: max_def split: if_splits)
  then have "\<not> t - 60 \<le> 0" using fl_nonpos [of "t - 60"] by linarith
  then have "1 \<le> t / 60" by simp
  then have "fl 1 \<le> fl (t / 60)" by (rule fl_mono)
  then have "100 \<le> fl (t / 60) * 100" by (simp add: fl_1)
  then have "fl 100 \<le> fl (fl (t / 60) * 100)" by (rule fl_mono)
  then show ?thesis by (simp add: fl_100)
qed


section \<open>Ranges of the operations metrics\<close>

text \<open>
  Claim C7. For 1 to 20 doctors, 10 to 100 patients per hour and 5 to 30 minutes of
  consultation, line 25 returns a finite float, line 26 returns a finite float, and this
  doctor utilisation lies in the closed interval from 0 to 100.
\<close>

theorem doctor_utilization_in_range:
  assumes "1 \<le> nd" "nd \<le> 20" "10 \<le> pph" "pph \<le> 100" "5 \<le> ct" "ct \<le> 30"
  shows "\<exists>ppd du. patients_per_doctor pph nd = Inr (Fin ppd) \<and>
           doctor_utilization (Fin ppd) ct = Inr (Fin du) \<and> 0 \<le> du \<and> du \<le> 100"
proof -
  define ppd where "ppd = fl (of_int pph / of_int nd)"
  define x where "x = fl (fl (fl (ppd * of_int ct) / 60) * 100)"
  have p: "patients_per_doctor pph nd = Inr (Fin ppd)" "0 \<le> ppd" "ppd \<le> 100"
    unfolding ppd_def using assms by (intro ppd_finite; simp)+
  have d: "doctor_utilization (Fin ppd) ct = Inr (Fin (min 100 x))"
    unfolding x_def using p(2,3) assms by (intro doctor_utilization_finite) simp_all
  have "0 \<le> fl (ppd * of_int ct)" using p(2,3) assms by (intro t_bound) simp_all
  then have "0 \<le> fl (fl (ppd * of_int ct) / 60)" by (intro fl_nonneg) simp
  then have "0 \<le> x" unfolding x_def by (intro fl_nonneg) simp
  then have "0 \<le> min 100 x" "min 100 x \<le> 100" by simp_all
  then show ?thesis using p(1) d by blast
qed

theorem doctor_utilization_in_range_witness:
  "patients_per_doctor 10 20 = Inr (Fin (1 / 2)) \<and>
   doctor_utilization (Fin (1 / 2)) 30 = Inr (Fin 25)"
proof -
  have v: "fl (1 / 2) = 1 / 2" "fl 15 = 15" "fl (1 / 4) = 1 / 4" "fl 25 = 25"
    by (simp_all add: fl_eval)
  have p: "patients_per_doctor 10 20 = Inr (Fin (1 / 2))"
    using ppd_finite(1) [of 20 10] by (simp add: v)
  have d: "doctor_utilization (Fin (1 / 2)) 30 = Inr (Fin 25)"
    using doctor_utilization_finite [of "1 / 2" 30] by (simp add: v)
  show ?thesis
    using doctor_utilization_in_range [of 20 10 30] p d by simp
qed

text \<open>
  Claim C8. For 10 to 100 patients per hour and 5 to 100 beds, line 28 returns a finite
  float and this bed utilisation lies in the closed interval from 0 to 100.
\<close>

theorem bed_utilization_in_range:
  assumes "10 \<le> pph" "pph \<le> 100" "5 \<le> nb" "nb \<le> 100"
  shows "\<exists>bu. bed_utilization pph nb = Inr (Fin bu) \<and> 0 \<le> bu \<and> bu \<le> 100"
proof -
  define x where "x = fl (fl (of_int pph / of_int nb) * 100)"
  have b: "bed_utilization pph nb = Inr (Fin (min 100 x))"
    unfolding x_def using assms by (intro bed_utilization_finite) simp_all
  have "0 \<le> fl (of_int pph / of_int nb)" using assms by (intro ppd_finite(2)) simp_all
  then have "0 \<le> x" unfolding x_def by (intro fl_nonneg) simp
  then have "0 \<le> min 100 x" "min 100 x \<le> 100" by simp_all
  then show ?thesis using b by blast
qed

theorem bed_utilization_in_range_witness:
  "bed_utilization 30 20 = Inr (Fin 100) \<and> bed_utilization 10 100 = Inr (Fin 10)"
proof -
  have v: "fl (3 / 2) = 3 / 2" "fl 150 = 150" "fl (fl (1 / 10) * 100) = 10"
    by (simp_all add: fl_eval)
  have a: "bed_utilization 30 20 = Inr (Fin 100)"
    using bed_utilization_finite [of 20 30] by (simp add: v)
  have b: "bed_utilization 10 100 = Inr (Fin 10)"
    using bed_utilization_finite [of 100 10] by (simp add: v)
  show ?thesis
    using bed_utilization_in_range [of 30 20] bed_utilization_in_range [of 10 100] a b
    by simp
qed

text \<open>
  Claim C9. For 1 to 20 doctors, 10 to 100 patients per hour and 5 to 30 minutes of
  consultation, line 25 returns a finite float, line 27 returns a finite float, and this
  waiting time is never negative.
\<close>

theorem waiting_time_nonneg:
  assumes "1 \<le> nd" "nd \<le> 20" "10 \<le> pph" "pph \<le> 100" "5 \<le> ct" "ct \<le> 30"
  shows "\<exists>ppd wt. patients_per_doctor pph nd = Inr (Fin ppd) \<and>
           waiting_time (Fin ppd) ct = Inr (Fin wt) \<and> 0 \<le> wt"
proof -
  define ppd where "ppd = fl (of_int pph / of_int nd)"
  define y where "y = fl (fl (ppd * of_int ct) - 60)"
  have p: "patients_per_doctor pph nd = Inr (Fin ppd)" "0 \<le> ppd" "ppd \<le> 100"
    unfolding ppd_def using assms by (intro ppd_finite; simp)+
  have w: "waiting_time (Fin ppd) ct = Inr (Fin (max 0 y))"
    unfolding y_def using p(2,3) assms by (intro waiting_time_finite) simp_all
  have "0 \<le> max 0 y" by simp
  then show ?thesis using p(1) w by blast
qed

theorem waiting_time_nonneg_witness:
  "patients_per_doctor 100 1 = Inr (Fin 100) \<and> waiting_time (Fin 100) 30 = Inr (Fin 2940) \<and>
   waiting_time (Fin (1 / 2)) 5 = Inr (Fin 0)"
proof -
  have v: "fl 100 = 100" "fl 3000 = 3000" "fl 2940 = 2940" "fl (5 / 2) = 5 / 2"
    "fl (- (115 / 2)) = - (115 / 2)"
    by (simp_all add: fl_eval)
  have p: "patients_per_doctor 100 1 = Inr (Fin 100)"
    using ppd_finite(1) [of 1 100] by (simp add: v)
  have a: "waiting_time (Fin 100) 30 = Inr (Fin 2940)"
    using waiting_time_finite [of 100 30] by (simp add: v)
  have b: "waiting_time (Fin (1 / 2)) 5 = Inr (Fin 0)"
    using waiting_time_finite [of "1 / 2" 5] by (simp add: v)
  show ?thesis
    using waiting_time_nonneg [of 1 100 30] p a b by simp
qed

text \<open>
  Claim C10. For 1 to 20 doctors, 10 to 100 patients per hour and 5 to 30 minutes of
  consultation, lines 25 to 27 return finite floats, and whenever the waiting time is
  strictly positive the doctor utilisation is exactly 100: a waiting time above zero never
  appears together with a utilisation below 100.
\<close>

theorem waiting_implies_full_utilization:
  assumes "1 \<le> nd" "nd \<le> 20" "10 \<le> pph" "pph \<le> 100" "5 \<le> ct" "ct \<le> 30"
  shows "\<exists>ppd wt du. patients_per_doctor pph nd = Inr (Fin ppd) \<and>
           waiting_time (Fin ppd) ct = Inr (Fin wt) \<and>
           doctor_utilization (Fin ppd) ct = Inr (Fin du) \<and>
           (0 < wt \<longrightarrow> du = 100)"
proof -
  define ppd where "ppd = fl (of_int pph / of_int nd)"
  define t where "t = fl (ppd * of_int ct)"
  have p: "patients_per_doctor pph nd = Inr (Fin ppd)" "0 \<le> ppd" "ppd \<le> 100"
    unfolding ppd_def using assms by (intro ppd_finite; simp)+
  have w: "waiting_time (Fin ppd) ct = Inr (Fin (max 0 (fl (t - 60))))"
    unfolding t_def using p(2,3) assms by (intro waiting_time_finite) simp_all
  have d: "doctor_utilization (Fin ppd) ct = Inr (Fin (min 100 (fl (fl (t / 60) * 100))))"
    unfolding t_def using p(2,3) assms by (intro doctor_utilization_finite) simp_all
  have "0 < max 0 (fl (t - 60)) \<longrightarrow> min 100 (fl (fl (t / 60) * 100)) = 100"
    using waiting_pos_imp_full by blast
  then show ?thesis using p(1) w d by blast
qed

theorem waiting_implies_full_utilization_witness:
  "patients_per_doctor 30 1 = Inr (Fin 30) \<and> waiting_time (Fin 30) 10 = Inr (Fin 240) \<and>
   doctor_utilization (Fin 30) 10 = Inr (Fin 100) \<and> (0::real) < 240"
proof -
  have v: "fl 30 = 30" "fl 300 = 300" "fl 240 = 240" "fl 5 = 5" "fl 500 = 500"
    by (simp_all add: fl_eval)
  have p: "patients_per_doctor 30 1 = Inr (Fin 30)"
    using ppd_finite(1) [of 1 30] by (simp add: v)
  have a: "waiting_time (Fin 30) 10 = Inr (Fin 240)"
    using waiting_time_finite [of 30 10] by (simp add: v)
  have b: "doctor_utilization (Fin 30) 10 = Inr (Fin 100)"
    using doctor_utilization_finite [of 30 10] by (simp add: v)
  show ?thesis
    using waiting_implies_full_utilization [of 1 30 10] p a b by simp
qed

section \<open>The advisory messages\<close>

text \<open>
  Claim C6. The advisory messages are decided exactly by the thresholds: the doctor message
  is the overutilisation warning exactly when the doctor utilisation exceeds 90 and the
  optimal message otherwise; the bed message is the overflow-risk warning exactly when the
  bed utilisation exceeds 85 and the healthy message otherwise. An infinite value compares
  as Python compares it, and a NaN exceeds nothing.
\<close>

theorem advisory_thresholds:
  "(doctor_msg (Fin du) = DoctorsOverutilized \<longleftrightarrow> 90 < du) \<and>
   (doctor_msg (Fin du) = DoctorUtilizationOptimal \<longleftrightarrow> \<not> 90 < du) \<and>
   (bed_msg (Fin bu) = HighBedOccupancy \<longleftrightarrow> 85 < bu) \<and>
   (bed_msg (Fin bu) = BedAvailabilityHealthy \<longleftrightarrow> \<not> 85 < bu) \<and>
   doctor_msg PInf = DoctorsOverutilized \<and> bed_msg PInf = HighBedOccupancy \<and>
   doctor_msg NInf = DoctorUtilizationOptimal \<and> bed_msg NInf = BedAvailabilityHealthy \<and>
   doctor_msg NaN = DoctorUtilizationOptimal \<and> bed_msg NaN = BedAvailabilityHealthy"
  by (simp add: doctor_msg_def bed_msg_def)

theorem advisory_thresholds_witness:
  "doctor_msg (Fin 100) = DoctorsOverutilized \<and>
   doctor_msg (Fin 90) = DoctorUtilizationOptimal \<and>
   bed_msg (Fin 86) = HighBedOccupancy \<and> bed_msg (Fin 85) = BedAvailabilityHealthy"
  using advisory_thresholds [of 100 86] advisory_thresholds [of 90 85]
  by simp


section \<open>Distance from exact arithmetic\<close>

lemma fl_err_bound:
  assumes "\<bar>x\<bar> \<le> M"
  shows "\<bar>fl x - x\<bar> \<le> (M + 1) / 2 ^ 53"
proof (cases "x = 0")
  case True
  then show ?thesis using assms by (simp add: fl_0)
next
  case False
  then have x: "0 < \<bar>x\<bar>" by simp
  have M: "0 \<le> M" using assms by linarith
  have e: "\<bar>fl x - x\<bar> \<le> pow2 (ulp_exp x) / 2" using False by (rule fl_err)
  show ?thesis
  proof (cases "- 1074 \<le> expo \<bar>x\<bar> - 52")
    case True
    then have k: "ulp_exp x = expo \<bar>x\<bar> - 52" by (simp add: ulp_exp_def)
    have "pow2 (expo \<bar>x\<bar>) = pow2 53 * pow2 (ulp_exp x) / 2"
      using pow2_add [of 53 "expo \<bar>x\<bar> - 53"] pow2_Suc [of "expo \<bar>x\<bar> - 53"]
      unfolding k by simp
    moreover have "pow2 53 = 2 ^ 53" by (simp add: pow2_def)
    ultimately have "pow2 (ulp_exp x) / 2 = pow2 (expo \<bar>x\<bar>) / 2 ^ 53" by simp
    also have "\<dots> \<le> \<bar>x\<bar> / 2 ^ 53"
      using expo_bounds [OF x] by (simp add: divide_right_mono)
    also have "\<dots> \<le> (M + 1) / 2 ^ 53" using assms by (simp add: divide_right_mono)
    finally show ?thesis using e by linarith
  next
    case False
    then have k: "ulp_exp x = - 1074" by (simp add: ulp_exp_def)
    have "pow2 (- 1074) / 2 \<le> 1 / 2 ^ 53" by (simp add: pow2_def)
    also have "\<dots> \<le> (M + 1) / 2 ^ 53" using M by (simp add: divide_right_mono)
    finally show ?thesis using e unfolding k by linarith
  qed
qed







section \<open>The operations metrics against the specification\<close>





section \<open>Return on investment\<close>

lemma fl_rel_err0:
  assumes "x = 0 \<or> 1 / 2 ^ 1022 \<le> \<bar>x\<bar>"
  shows "\<bar>fl x - x\<bar> \<le> \<bar>x\<bar> / 2 ^ 53"
proof (cases "x = 0")
  case True
  then show ?thesis by (simp add: fl_0)
next
  case False
  then have "pow2 (- 1022) \<le> \<bar>x\<bar>" using assms by (simp add: pow2_def)
  then show ?thesis by (rule fl_rel_err)
qed





text \<open>
  Claim C4. The ROI classification is total and three-way: a value above 50 is classified
  excellent, a value above 0 and at most 50 moderate, and a value of at most 0 negative
  (not feasible); no finite value falls outside these three cases. Positive infinity is
  above 50 and excellent, negative infinity is below 0 and negative; a NaN, which line 90
  never produces, exceeds nothing and is shown as negative.
\<close>

theorem roi_classify_three_way:
  "(50 < r \<longrightarrow> roi_classify (Fin r) = ExcellentROI) \<and>
   (0 < r \<and> r \<le> 50 \<longrightarrow> roi_classify (Fin r) = ModerateROI) \<and>
   (r \<le> 0 \<longrightarrow> roi_classify (Fin r) = NegativeROI) \<and>
   (50 < r \<or> (0 < r \<and> r \<le> 50) \<or> r \<le> 0) \<and>
   roi_classify PInf = ExcellentROI \<and> roi_classify NInf = NegativeROI \<and>
   roi_classify NaN = NegativeROI"
  by (auto simp: roi_classify_def)

theorem roi_classify_three_way_witness:
  "roi_classify (Fin 60) = ExcellentROI \<and> roi_classify (Fin 50) = ModerateROI \<and>
   roi_classify (Fin (- 40)) = NegativeROI"
  using roi_classify_three_way [of 60] roi_classify_three_way [of 50]
    roi_classify_three_way [of "- 40"]
  by simp

lemma roi_never_nan: "roi investment annual_savings years \<noteq> Inr NaN"
proof -
  have "fmul (Fin q) (Fin 100) \<noteq> NaN" for q
    by (simp add: round64_def Let_def)
  then show ?thesis
    by (auto simp: roi_def int_truediv_def raise_overflow_def split: pyfloat.splits)
qed


section \<open>The Six Sigma estimator\<close>

lemma scale_close:
  assumes "Q = 0 \<or> 1 / 10000000 \<le> \<bar>Q\<bar>" "1 \<le> c"
  shows "\<bar>fl (fl Q * c) - Q * c\<bar> \<le> \<bar>Q * c\<bar> / 2 ^ 51"
proof -
  have small: "(1::real) / 2 ^ 1022 \<le> 1 / 20000000" by simp
  have e1: "\<bar>fl Q - Q\<bar> \<le> \<bar>Q\<bar> / 2 ^ 53"
    using assms(1) small by (intro fl_rel_err0) linarith
  have qn: "fl Q * c = 0 \<or> 1 / 2 ^ 1022 \<le> \<bar>fl Q * c\<bar>"
  proof (cases "Q = 0")
    case True
    then show ?thesis by (simp add: fl_0)
  next
    case False
    then have "1 / 10000000 \<le> \<bar>Q\<bar>" using assms(1) by simp
    moreover have "\<bar>Q\<bar> / 2 ^ 53 \<le> \<bar>Q\<bar> / 2" by (simp add: divide_left_mono)
    ultimately have "1 / 20000000 \<le> \<bar>fl Q\<bar>" using e1 by linarith
    moreover have "\<bar>fl Q\<bar> * 1 \<le> \<bar>fl Q\<bar> * c" using assms(2) by (intro mult_left_mono) simp_all
    ultimately have "1 / 20000000 \<le> \<bar>fl Q * c\<bar>" using assms(2) by (simp add: abs_mult)
    then show ?thesis using small by linarith
  qed
  have e2: "\<bar>fl (fl Q * c) - fl Q * c\<bar> \<le> \<bar>fl Q * c\<bar> / 2 ^ 53"
    using qn by (rule fl_rel_err0)
  define K where "K = \<bar>Q\<bar> * c"
  define q where "q = fl Q"
  define r where "r = fl (q * c)"
  have c0: "0 \<le> c" using assms(2) by simp
  have K0: "0 \<le> K" unfolding K_def using c0 by simp
  have "\<bar>q * c - Q * c\<bar> = \<bar>q - Q\<bar> * c"
    using c0 by (simp add: abs_mult left_diff_distrib [symmetric])
  also have "\<dots> \<le> (\<bar>Q\<bar> / 2 ^ 53) * c"
    using e1 c0 unfolding q_def by (intro mult_right_mono)
  finally have f1: "\<bar>q * c - Q * c\<bar> \<le> K / 2 ^ 53" by (simp add: K_def)
  have "\<bar>q * c\<bar> \<le> \<bar>Q * c\<bar> + K / 2 ^ 53" using f1 by linarith
  also have "\<dots> = K + K / 2 ^ 53" using c0 by (simp add: K_def abs_mult)
  also have "\<dots> \<le> 2 * K" using K0 by (simp add: field_simps)
  finally have f2: "\<bar>q * c\<bar> \<le> 2 * K" .
  have f3: "\<bar>r - q * c\<bar> \<le> \<bar>q * c\<bar> / 2 ^ 53" using e2 by (simp add: r_def q_def)
  have "\<bar>q * c\<bar> / 2 ^ 53 \<le> (2 * K) / 2 ^ 53" using f2 by (intro divide_right_mono) simp_all
  then have "\<bar>r - Q * c\<bar> \<le> 4 * K / 2 ^ 53" using f1 f3 K0 by linarith
  moreover have "4 * K / 2 ^ 53 = \<bar>Q * c\<bar> / 2 ^ 51" using c0 by (simp add: K_def abs_mult)
  ultimately show ?thesis unfolding r_def q_def by linarith
qed

lemma dpmo_finite:
  assumes "0 \<le> defects" "defects \<le> 1000"
  defines "Q \<equiv> (of_int defects / 10000 :: real)"
  shows "dpmo defects = Inr (Fin (fl (fl Q * 1000000)))"
    and "\<bar>fl (fl Q * 1000000) - Q * 1000000\<bar> \<le> Q * 1000000 / 2 ^ 51"
    and "0 \<le> fl (fl Q * 1000000)"
    and "fl (fl Q * 1000000) \<le> 1000000"
proof -
  have dr: "(0::real) \<le> of_int defects" "(of_int defects :: real) \<le> 1000"
    using assms by simp_all
  have Qb: "0 \<le> Q" "Q \<le> 1" unfolding Q_def using dr by simp_all
  have "\<bar>of_int defects / of_int 10000 :: real\<bar> \<le> of_int 1" using dr by simp
  then have i: "int_truediv defects 10000 = Inr (Fin (fl Q))"
    unfolding Q_def using int_truediv_finite [of 10000 defects 1] by simp
  have qb: "0 \<le> fl Q" "fl Q \<le> 1"
    using fl_mono [of 0 Q] fl_mono [of Q 1] Qb by (simp_all add: fl_0 fl_1)
  then have "\<bar>fl Q * 1000000\<bar> \<le> of_int 1000000" by simp
  then have m: "fmul (Fin (fl Q)) (Fin 1000000) = Fin (fl (fl Q * 1000000))"
    by (rule fmul_finite) simp
  show "dpmo defects = Inr (Fin (fl (fl Q * 1000000)))"
    unfolding dpmo_def opportunities_def using i m by simp
  have Qn: "Q = 0 \<or> 1 / 10000000 \<le> \<bar>Q\<bar>"
  proof (cases "defects = 0")
    case True
    then show ?thesis by (simp add: Q_def)
  next
    case False
    then have "1 \<le> defects" using assms(1) by simp
    then have "(1::real) \<le> of_int defects" by simp
    then show ?thesis unfolding Q_def by simp
  qed
  show "\<bar>fl (fl Q * 1000000) - Q * 1000000\<bar> \<le> Q * 1000000 / 2 ^ 51"
    using scale_close [OF Qn, of 1000000] Qb by simp
  show "0 \<le> fl (fl Q * 1000000)" using qb by (intro fl_nonneg) simp
  have "fl (fl Q * 1000000) \<le> fl (of_int 1000000)" using qb by (intro fl_mono) simp
  then show "fl (fl Q * 1000000) \<le> 1000000" using fl_of_int [of 1000000] by simp
qed

lemma ln10_ge_1: "1 \<le> ln (10::real)"
proof -
  have "exp (1::real) \<le> 3" by (rule exp_le)
  then have "exp (1::real) \<le> 10" by simp
  then have "ln (exp (1::real)) \<le> ln 10" by (subst ln_le_cancel_iff) simp_all
  then show ?thesis by simp
qed

lemma log10_close_le:
  fixes x y :: real
  assumes "1 \<le> x" "x \<le> y"
  shows "0 \<le> log 10 y - log 10 x" "log 10 y - log 10 x \<le> y - x"
proof -
  have x: "0 < x" and y: "0 < y" using assms by simp_all
  have r: "1 \<le> y / x" using assms x by simp
  have e: "log 10 y - log 10 x = ln (y / x) / ln 10"
    using x y by (simp add: log_def ln_div diff_divide_distrib)
  have l0: "0 \<le> ln (y / x)" using r by simp
  show "0 \<le> log 10 y - log 10 x" unfolding e using l0 ln10_ge_1 by simp
  have "ln (y / x) / ln 10 \<le> ln (y / x) / 1"
    using l0 ln10_ge_1 by (intro divide_left_mono) simp_all
  also have "\<dots> \<le> y / x - 1" using ln_le_minus_one [of "y / x"] x y by simp
  also have "\<dots> = (y - x) / x" using x by (simp add: diff_divide_distrib)
  also have "\<dots> \<le> (y - x) / 1" using assms x by (intro divide_left_mono) simp_all
  finally show "log 10 y - log 10 x \<le> y - x" unfolding e by simp
qed

lemma log10_close:
  fixes x y :: real
  assumes "1 \<le> x" "1 \<le> y"
  shows "\<bar>log 10 x - log 10 y\<bar> \<le> \<bar>x - y\<bar>"
proof (cases "x \<le> y")
  case True
  then show ?thesis using log10_close_le [OF assms(1) True] by simp
next
  case False
  then have "y \<le> x" by simp
  then show ?thesis using log10_close_le [OF assms(2)] by (simp add: abs_le_iff) 
qed


lemma lit_3_4:
  "fl (34 / 10) = 7656119366529843 / 2251799813685248"
  "fl (17 / 5) = 7656119366529843 / 2251799813685248"
  by (simp_all add: fl_eval)

lemma sigma_finite:
  assumes h: "\<forall>x>0. \<bar>np_log10 x - log 10 x\<bar> \<le> 1 / 1000"
    and d: "99 \<le> d" "d \<le> 1000000"
  defines "q \<equiv> fl (d / fl (34 / 10))"
  shows "sigma_level np_log10 (Fin d) = Inr (Fin (fl (6 - np_log10 q)), [Fin q])"
    and "\<bar>fl (6 - np_log10 q) - (6 - log 10 (d / (34 / 10)))\<bar> \<le> 1 / 1000 + 1 / 10 ^ 9"
proof -
  define c where "c = (7656119366529843 / 2251799813685248 :: real)"
  define y where "y = d / c"
  define x where "x = d / (34 / 10)"
  have c: "fl (34 / 10) = c" unfolding c_def by (rule lit_3_4(1))
  have q: "q = fl y" unfolding q_def c y_def ..
  have yl: "1 \<le> y" and yu: "y \<le> 1000000" using d by (simp_all add: y_def c_def)
  have xl: "1 \<le> x" using d by (simp add: x_def)
  have yx: "\<bar>y - x\<bar> \<le> 1 / 10 ^ 10" using d by (simp add: y_def x_def c_def abs_le_iff)
  have "\<bar>y\<bar> \<le> of_int 1000000" using yl yu by simp
  then have dv: "fdiv (Fin d) (Fin c) = Inr (Fin q)"
    unfolding q y_def by (intro fdiv_finite [where n = 1000000]) (simp_all add: c_def)
  have "fl 1 \<le> q" unfolding q using yl by (rule fl_mono)
  then have ql: "1 \<le> q" by (simp add: fl_1)
  have "q \<le> fl (of_int 1000000)" unfolding q using yu by (intro fl_mono) simp
  then have qu: "q \<le> 1000000" using fl_of_int [of 1000000] by simp
  have qy: "\<bar>q - y\<bar> \<le> 1000001 / 2 ^ 53"
    unfolding q using fl_err_bound [of y 1000000] yl yu by simp
  have "(1000001 :: real) / 2 ^ 53 \<le> 2 / 10 ^ 10" by simp
  then have qx: "\<bar>q - x\<bar> \<le> 3 / 10 ^ 10" using qy yx by linarith
  have lq: "\<bar>log 10 q - log 10 x\<bar> \<le> 3 / 10 ^ 10"
    using log10_close [OF ql xl] qx by linarith
  have "log 10 1 \<le> log 10 q" using ql by (subst log_le_cancel_iff) simp_all
  then have l0: "0 \<le> log 10 q" by simp
  have "log 10 ((10::real) ^ 6) = real 6 * log 10 10" by (rule log_nat_power) simp
  then have p6: "log 10 (1000000::real) = 6" by simp
  have "log 10 q \<le> log 10 1000000" using ql qu by (subst log_le_cancel_iff) simp_all
  then have l6: "log 10 q \<le> 6" unfolding p6 .
  have n: "\<bar>np_log10 q - log 10 q\<bar> \<le> 1 / 1000" using h ql by simp
  have lf: "log10_float np_log10 (Fin q) = Fin (np_log10 q)"
    using ql by (simp add: log10_float_def)
  have b7: "\<bar>6 - np_log10 q\<bar> \<le> 7" using n l0 l6 by linarith
  then have "\<bar>6 - np_log10 q\<bar> \<le> of_int 7" by simp
  then have sb: "fsub (Fin 6) (Fin (np_log10 q)) = Fin (fl (6 - np_log10 q))"
    by (rule fsub_finite) simp
  have pos: "pf_less (Fin 0) (Fin d)" using d by simp
  show "sigma_level np_log10 (Fin d) = Inr (Fin (fl (6 - np_log10 q)), [Fin q])"
    unfolding sigma_level_def c using pos dv lf sb by simp
  have r: "\<bar>fl (6 - np_log10 q) - (6 - np_log10 q)\<bar> \<le> 8 / 2 ^ 53"
    using fl_err_bound [of "6 - np_log10 q" 7] b7 by simp
  have "(8 :: real) / 2 ^ 53 \<le> 1 / 10 ^ 10" by simp
  then have "\<bar>fl (6 - np_log10 q) - (6 - log 10 x)\<bar> \<le> 1 / 1000 + 4 / 10 ^ 10"
    using r n lq by linarith
  then show "\<bar>fl (6 - np_log10 q) - (6 - log 10 (d / (34 / 10)))\<bar> \<le> 1 / 1000 + 1 / 10 ^ 9"
    unfolding x_def by simp
qed

text \<open>
  Rounding is visible in the DPMO: in exact arithmetic 79 defects give 7900, the two
  rounded operations of line 105 give the next float above it.
\<close>

lemma dpmo_79: "dpmo 79 = Inr (Fin (8686141859430401 / 1099511627776))"
proof -
  have "fl (fl (79 / 10000) * 1000000) = 8686141859430401 / 1099511627776"
    by (simp add: fl_eval)
  then show ?thesis using dpmo_finite(1) [of 79] by simp
qed

text \<open>
  Claim C2. For every number of defects from 0 to 1000 the opportunities are
  1000 times 10, that is 10000, and line 105 returns the DPMO as a finite float: defects
  over opportunities, rounded, times 1000000, rounded, within \<open>2\<^sup>-\<^sup>5\<^sup>1\<close> of the value of the
  formula in exact arithmetic. The DPMO is never negative and is 0 exactly for zero
  defects. When it is positive, line 106 calls \<^verbatim>\<open>np.log10\<close> once, on DPMO over 3.4,
  and the sigma level is 6 minus that logarithm, rounded; for every \<^verbatim>\<open>np.log10\<close> within one
  thousandth of the decimal logarithm it is within 0.001000001 of 6 minus the decimal
  logarithm of DPMO over 3.4. When the DPMO is 0 the sigma level is exactly 6 and no
  logarithm is evaluated.
\<close>

theorem six_sigma_spec:
  assumes "0 \<le> defects" "defects \<le> 1000"
    and "\<forall>x>0. \<bar>np_log10 x - log 10 x\<bar> \<le> 1 / 1000"
  shows "opportunities = 10000 \<and>
         (\<exists>d. dpmo defects = Inr (Fin d) \<and>
              d = fl (fl (of_int defects / 10000) * 1000000) \<and>
              \<bar>d - of_int defects / 10000 * 1000000\<bar>
                \<le> of_int defects / 10000 * 1000000 / 2 ^ 51 \<and>
              0 \<le> d \<and> (d = 0 \<longleftrightarrow> defects = 0) \<and>
              (0 < d \<longrightarrow>
                 (\<exists>s. sigma_level np_log10 (Fin d)
                        = Inr (Fin s, [Fin (fl (d / fl (34 / 10)))]) \<and>
                      s = fl (6 - np_log10 (fl (d / fl (34 / 10)))) \<and>
                      \<bar>s - (6 - log 10 (d / (34 / 10)))\<bar> \<le> 1 / 1000 + 1 / 10 ^ 9)) \<and>
              (d = 0 \<longrightarrow> sigma_level np_log10 (Fin d) = Inr (Fin 6, [])))"
proof -
  define Q :: real where "Q = of_int defects / 10000"
  define d where "d = fl (fl Q * 1000000)"
  have o: "opportunities = 10000" by (simp add: opportunities_def)
  have r: "dpmo defects = Inr (Fin d)"
    and e: "\<bar>d - Q * 1000000\<bar> \<le> Q * 1000000 / 2 ^ 51"
    and d0: "0 \<le> d" and d1: "d \<le> 1000000"
    unfolding d_def Q_def using dpmo_finite [OF assms(1,2)] by simp_all
  have z: "d = 0" if "defects = 0" using that by (simp add: d_def Q_def fl_0)
  have big: "99 \<le> d" if "defects \<noteq> 0"
  proof -
    have "1 \<le> defects" using that assms(1) by simp
    then have "(1::real) \<le> of_int defects" by simp
    then have Ql: "100 \<le> Q * 1000000" by (simp add: Q_def)
    have "Q * 1000000 / 2 ^ 51 \<le> Q * 1000000 / 100" using Ql by (intro divide_left_mono) simp_all
    then show ?thesis using e Ql by linarith
  qed
  have i: "d = 0 \<longleftrightarrow> defects = 0" using z big by fastforce
  have s1: "\<exists>s. sigma_level np_log10 (Fin d) = Inr (Fin s, [Fin (fl (d / fl (34 / 10)))]) \<and>
              s = fl (6 - np_log10 (fl (d / fl (34 / 10)))) \<and>
              \<bar>s - (6 - log 10 (d / (34 / 10)))\<bar> \<le> 1 / 1000 + 1 / 10 ^ 9" if "0 < d"
  proof -
    have "defects \<noteq> 0" using that z by fastforce
    then have "99 \<le> d" by (rule big)
    then show ?thesis using sigma_finite [OF assms(3) _ d1] by blast
  qed
  have s0: "sigma_level np_log10 (Fin d) = Inr (Fin 6, [])" if "d = 0"
    using that by (simp add: sigma_level_def)
  show ?thesis
    using o r e d0 i s1 s0 unfolding d_def Q_def by blast
qed

theorem six_sigma_spec_witness:
  "dpmo 0 = Inr (Fin 0) \<and> sigma_level (log 10) (Fin 0) = Inr (Fin 6, []) \<and>
   dpmo 50 = Inr (Fin 5000) \<and>
   sigma_level (log 10) (Fin 5000) =
     Inr (Fin (fl (6 - log 10 (6467715457505883 / 4398046511104))),
          [Fin (6467715457505883 / 4398046511104)])"
proof -
  have v: "fl (fl (1 / 200) * 1000000) = 5000"
    "fl (11258999068426240000 / 7656119366529843) = 6467715457505883 / 4398046511104"
    by (simp_all add: fl_eval)
  show ?thesis
    using six_sigma_spec [of 0 "log 10"] six_sigma_spec [of 50 "log 10"]
    by (auto simp: v fl_0 lit_3_4)
qed


text \<open>
  Bounds on a decimal logarithm from integer powers: \<open>a / b < log\<^sub>1\<^sub>0 x\<close> follows from
  \<open>10\<^sup>a < x\<^sup>b\<close>, and likewise from above. They bracket the logarithm in the example of
  50 defects without evaluating it.
\<close>

lemma log10_gt:
  fixes x :: real
  assumes "10 ^ a < x ^ b" "0 < b" "0 < x"
  shows "real a / real b < log 10 x"
proof -
  have "log 10 (10 ^ a) < log 10 (x ^ b)" using assms by (subst log_less_cancel_iff) simp_all
  then have "real a < real b * log 10 x" using assms by (simp add: log_nat_power)
  then show ?thesis using assms by (simp add: pos_divide_less_eq mult.commute)
qed

lemma log10_lt:
  fixes x :: real
  assumes "x ^ b < 10 ^ a" "0 < b" "0 < x"
  shows "log 10 x < real a / real b"
proof -
  have "log 10 (x ^ b) < log 10 (10 ^ a)" using assms by (subst log_less_cancel_iff) simp_all
  then have "real b * log 10 x < real a" using assms by (simp add: log_nat_power)
  then show ?thesis using assms by (simp add: pos_less_divide_eq mult.commute)
qed

lemma log10_q_bounds:
  "19 / 6 < log 10 (6467715457505883 / 4398046511104)"
  "log 10 (6467715457505883 / 4398046511104) < 73 / 23"
proof -
  let ?q = "6467715457505883 / 4398046511104 :: real"
  have "(10::real) ^ 19 < ?q ^ 6" by (simp add: power_divide)
  then have "real 19 / real 6 < log 10 ?q" by (rule log10_gt) simp_all
  then show "19 / 6 < log 10 ?q" by simp
  have "?q ^ 23 < 10 ^ 73" by (simp add: power_divide)
  then have "log 10 ?q < real 73 / real 23" by (rule log10_lt) simp_all
  then show "log 10 ?q < 73 / 23" by simp
qed

lemma sigma_50:
  assumes "\<forall>x>0. \<bar>np_log10 x - log 10 x\<bar> \<le> 1 / 1000"
  shows "\<exists>v. sigma_level np_log10 (Fin 5000)
               = Inr (Fin v, [Fin (6467715457505883 / 4398046511104)]) \<and>
             1590382570585069 / 562949953421312 \<le> v \<and>
             v \<le> 199448477247559 / 70368744177664"
proof -
  let ?q = "6467715457505883 / 4398046511104 :: real"
  have "fl (5000 / (7656119366529843 / 2251799813685248)) = ?q"
    by (simp add: fl_eval)
  then have q: "fl (5000 / fl (34 / 10)) = ?q" unfolding lit_3_4(1) .
  have s: "sigma_level np_log10 (Fin 5000) = Inr (Fin (fl (6 - np_log10 ?q)), [Fin ?q])"
    using sigma_finite(1) [OF assms, of 5000] unfolding q by simp
  have "\<bar>np_log10 ?q - log 10 ?q\<bar> \<le> 1 / 1000" using assms by simp
  then have l: "64977 / 23000 \<le> 6 - np_log10 ?q" and u: "6 - np_log10 ?q \<le> 8503 / 3000"
    using log10_q_bounds by linarith+
  have v: "fl (64977 / 23000) = 1590382570585069 / 562949953421312"
    "fl (8503 / 3000) = 199448477247559 / 70368744177664"
    by (simp_all add: fl_eval)
  have "1590382570585069 / 562949953421312 \<le> fl (6 - np_log10 ?q)"
    using fl_mono [OF l] by (simp only: v)
  moreover have "fl (6 - np_log10 ?q) \<le> 199448477247559 / 70368744177664"
    using fl_mono [OF u] by (simp only: v)
  ultimately show ?thesis using s by blast
qed

lemma dpmo_50: "dpmo 50 = Inr (Fin 5000)"
proof -
  have "fl (fl (1 / 200) * 1000000) = 5000"
    by (simp add: fl_eval)
  then show ?thesis using dpmo_finite(1) [of 50] by simp
qed

text \<open>
  Claim C5. The Six Sigma classification is total and four-band: a sigma level of at least 5
  is world-class, from 4 up to but excluding 5 good, from 3 up to but excluding 4 moderate,
  and below 3 poor; positive infinity is world-class, negative infinity and a NaN are poor.
  For 50 defects the DPMO is 5000 and the sigma level is a finite float equal to 2.83 to two
  decimals, classified poor; this part needs \<open>np_log10\<close> to be a decimal logarithm, here to
  within one thousandth.
\<close>

theorem sigma_classify_bands:
  assumes "\<forall>x>0. \<bar>np_log10 x - log 10 x\<bar> \<le> 1 / 1000"
  shows "(5 \<le> s \<longrightarrow> sigma_classify (Fin s) = WorldClass) \<and>
         (4 \<le> s \<and> s < 5 \<longrightarrow> sigma_classify (Fin s) = GoodProcess) \<and>
         (3 \<le> s \<and> s < 4 \<longrightarrow> sigma_classify (Fin s) = ModerateQuality) \<and>
         (s < 3 \<longrightarrow> sigma_classify (Fin s) = PoorQuality) \<and>
         sigma_classify PInf = WorldClass \<and> sigma_classify NInf = PoorQuality \<and>
         sigma_classify NaN = PoorQuality \<and>
         dpmo 50 = Inr (Fin 5000) \<and>
         (\<exists>v args. sigma_level np_log10 (Fin 5000) = Inr (Fin v, args) \<and>
            \<bar>v - 283 / 100\<bar> < 5 / 1000 \<and>
            sigma_classify (Fin v) = PoorQuality)"
proof -
  obtain v where s: "sigma_level np_log10 (Fin 5000)
               = Inr (Fin v, [Fin (6467715457505883 / 4398046511104)])"
    and l: "1590382570585069 / 562949953421312 \<le> v"
    and u: "v \<le> 199448477247559 / 70368744177664"
    using sigma_50 [OF assms] by blast
  have l2: "(2825 / 1000 :: real) < 1590382570585069 / 562949953421312" by simp
  have u2: "(199448477247559 / 70368744177664 :: real) < 2835 / 1000" by simp
  have a: "\<bar>v - 283 / 100\<bar> < 5 / 1000" using l u l2 u2 by linarith
  have "v < 3" using u u2 by linarith
  then have p: "sigma_classify (Fin v) = PoorQuality" by (simp add: sigma_classify_def)
  have b: "(5 \<le> s \<longrightarrow> sigma_classify (Fin s) = WorldClass) \<and>
         (4 \<le> s \<and> s < 5 \<longrightarrow> sigma_classify (Fin s) = GoodProcess) \<and>
         (3 \<le> s \<and> s < 4 \<longrightarrow> sigma_classify (Fin s) = ModerateQuality) \<and>
         (s < 3 \<longrightarrow> sigma_classify (Fin s) = PoorQuality) \<and>
         sigma_classify PInf = WorldClass \<and> sigma_classify NInf = PoorQuality \<and>
         sigma_classify NaN = PoorQuality"
    by (simp add: sigma_classify_def)
  show ?thesis using b dpmo_50 s a p by blast
qed

theorem sigma_classify_bands_witness:
  "sigma_classify (Fin 6) = WorldClass \<and> sigma_classify (Fin 4) = GoodProcess \<and>
   sigma_classify (Fin 3) = ModerateQuality \<and> sigma_classify (Fin 2) = PoorQuality \<and>
   dpmo 50 = Inr (Fin 5000) \<and>
   sigma_classify (Fin (fl (6 - log 10 (6467715457505883 / 4398046511104)))) = PoorQuality \<and>
   \<bar>fl (6 - log 10 (6467715457505883 / 4398046511104)) - 283 / 100\<bar> < 5 / 1000"
proof -
  have "fl (5000 / (7656119366529843 / 2251799813685248))
          = 6467715457505883 / 4398046511104"
    by (simp add: fl_eval)
  then have q: "fl (5000 / fl (34 / 10)) = 6467715457505883 / 4398046511104"
    unfolding lit_3_4(1) .
  have e: "sigma_level (log 10) (Fin 5000)
             = Inr (Fin (fl (6 - log 10 (6467715457505883 / 4398046511104))),
                    [Fin (6467715457505883 / 4398046511104)])"
    using sigma_finite(1) [of "log 10" 5000] unfolding q by simp
  show ?thesis
    using sigma_classify_bands [of "log 10" 6] sigma_classify_bands [of "log 10" 4]
      sigma_classify_bands [of "log 10" 3] sigma_classify_bands [of "log 10" 2]
    unfolding e by simp
qed

end
